theory Spec2Isabelle
  imports Complex_Main "HOL-Library.Multiset"
begin

section \<open>Package track: keys, tracks and the key-label parser\<close>

text \<open>
  Conventions of the embedding.
  \<^item> Go's \<open>int\<close> is modelled as \<open>int\<close>: the values the engine computes with (key numbers,
    energies, counters capped at 100, slice lengths) stay far from the 64-bit bounds.
  \<^item> Go's \<open>float64\<close> is modelled as \<open>real\<close>: exact arithmetic, no NaN, no infinities and
    no rounding. The one infinity of the source (the initial best score of the start
    selection) is written as \<open>None\<close> of an option.
  \<^item> Go's \<open>string\<close> is a byte list. \<open>Mode\<close> is a string type in the source and stays one.
  \<^item> A slice index out of range panics in Go; the functions that index return an option
    and \<open>None\<close> is the panic.
\<close>

type_synonym Mode = string

definition ModeA :: Mode where "ModeA = ''A''"
definition ModeB :: Mode where "ModeB = ''B''"

record Key =
  Number :: int
  Mode :: Mode

record Track =
  Title :: string
  Artist :: string
  BPM :: real
  Energy :: int
  Key :: Key

definition Clone :: "Track \<Rightarrow> Track" where
  "Clone t = \<lparr>Title = Title t, Artist = Artist t, BPM = BPM t, Energy = Energy t, Key = Key t\<rparr>"

subsection \<open>The standard-library string functions ParseKey calls\<close>

text \<open>
  \<open>strings.ToUpper\<close>, \<open>strings.TrimSpace\<close> and \<open>strconv.Atoi\<close> belong to the Go
  standard library. They are modelled on ASCII input: \<open>ToUpper\<close> maps \<open>a\<close>..\<open>z\<close> to
  \<open>A\<close>..\<open>Z\<close>, \<open>TrimSpace\<close> strips the six ASCII white-space bytes from both ends, and
  \<open>Atoi\<close> is the library's path for inputs shorter than 19 bytes: an optional sign, then
  at least one decimal digit and nothing else (the byte subtraction \<open>ch -= '0'\<close> wraps
  modulo 256, so that a byte below \<open>'0'\<close> fails the test \<open>ch > 9\<close> as well).
\<close>

definition is_ascii :: "string \<Rightarrow> bool" where
  "is_ascii s = list_all (\<lambda>c. (of_char c :: nat) < 128) s"

definition upper_byte :: "char \<Rightarrow> char" where
  "upper_byte c =
     (if (97::nat) \<le> of_char c \<and> (of_char c :: nat) \<le> 122 then char_of ((of_char c :: nat) - 32) else c)"

definition ToUpper :: "string \<Rightarrow> string" where
  "ToUpper s = map upper_byte s"

definition isSpace :: "char \<Rightarrow> bool" where
  "isSpace c = ((of_char c :: nat) \<in> {9, 10, 11, 12, 13, 32})"

definition TrimSpace :: "string \<Rightarrow> string" where
  "TrimSpace s = rev (dropWhile isSpace (rev (dropWhile isSpace s)))"

definition byte_sub :: "char \<Rightarrow> char \<Rightarrow> nat" where
  "byte_sub ch z = ((of_char ch :: nat) + 256 - of_char z) mod 256"

fun atoi_digits :: "int \<Rightarrow> string \<Rightarrow> int option" where
  "atoi_digits n [] = Some n"
| "atoi_digits n (ch # s) =
     (let d = byte_sub ch (CHR ''0'')
      in if d > 9 then None else atoi_digits (n * 10 + int d) s)"

definition Atoi :: "string \<Rightarrow> int option" where
  "Atoi s0 =
     (case s0 of
        [] \<Rightarrow> None
      | c # cs \<Rightarrow>
          if c = CHR ''-'' \<or> c = CHR ''+'' then
            (if length cs < 1 then None
             else case atoi_digits 0 cs of
                    None \<Rightarrow> None
                  | Some n \<Rightarrow> Some (if c = CHR ''-'' then - n else n))
          else atoi_digits 0 s0)"

subsection \<open>ParseKey\<close>

datatype key_error =
  InvalidKeyFormat
  | InvalidKeyMode
  | InvalidKeyNumber
  | KeyNumberOutOfRange int

definition ParseKey :: "string \<Rightarrow> key_error + Key" where
  "ParseKey input =
     (let cleaned = TrimSpace (ToUpper input)
      in if length cleaned < 2 \<or> length cleaned > 3 then Inl InvalidKeyFormat
         else
           let mode = drop (length cleaned - 1) cleaned
           in if mode \<noteq> ModeA \<and> mode \<noteq> ModeB then Inl InvalidKeyMode
              else
                let numberPart = take (length cleaned - 1) cleaned
                in case Atoi numberPart of
                     None \<Rightarrow> Inl InvalidKeyNumber
                   | Some number \<Rightarrow>
                       if number < 1 \<or> number > 12 then Inl (KeyNumberOutOfRange number)
                       else Inr \<lparr>Number = number, Mode = mode\<rparr>)"

text \<open>
  The labels of the specification: the decimal numeral of a number from 1 to 12, without
  sign or padding, immediately followed by \<open>A\<close> or \<open>B\<close>.
\<close>

definition digit_char :: "nat \<Rightarrow> char" where
  "digit_char d = char_of (48 + d)"

definition decimal :: "nat \<Rightarrow> string" where
  "decimal n = (if n < 10 then [digit_char n] else [digit_char (n div 10), digit_char (n mod 10)])"

definition spec_key_labels :: "string list" where
  "spec_key_labels = concat (map (\<lambda>n. [decimal n @ ModeA, decimal n @ ModeB]) [1..<13])"

text \<open>
  The spellings of a number that \<open>ParseKey\<close> accepts: the plain numeral and, for a
  one-digit number, the numeral with a leading zero or a leading plus sign.
\<close>

definition number_spellings :: "int \<Rightarrow> string list" where
  "number_spellings n =
     (if n < 10 then [decimal (nat n), CHR ''0'' # decimal (nat n), CHR ''+'' # decimal (nat n)]
      else [decimal (nat n)])"

section \<open>Package strategy: the sequencing engine\<close>

subsection \<open>Context, clock and random generator\<close>

text \<open>
  A \<open>context.Context\<close> is modelled by what \<open>Sort\<close> reads from it: the value stored under
  the limit key, the value stored under the seed key, and the cancellation signal. The
  signal is read once per step of the greedy loop; \<open>ctx_done c k\<close> is what the \<open>k\<close>-th
  poll sees, \<open>None\<close> while \<open>Done()\<close> is still open and \<open>Some e\<close> once it is closed, \<open>e\<close>
  being the error \<open>Err()\<close> then returns.
\<close>

datatype ctx_error = Canceled | DeadlineExceeded

record Context =
  ctx_limit :: "int option"
  ctx_seed :: "int option"
  ctx_done :: "nat \<Rightarrow> ctx_error option"

definition Background :: Context where
  "Background = \<lparr>ctx_limit = None, ctx_seed = None, ctx_done = (\<lambda>k. None)\<rparr>"

definition WithLimit :: "Context \<Rightarrow> int \<Rightarrow> Context" where
  "WithLimit ctx limit = (if limit \<le> 0 then ctx else ctx\<lparr>ctx_limit := Some limit\<rparr>)"

definition limitFromContext :: "Context \<Rightarrow> int" where
  "limitFromContext ctx = (case ctx_limit ctx of Some limit \<Rightarrow> limit | None \<Rightarrow> 0)"

definition WithSeed :: "Context \<Rightarrow> int \<Rightarrow> Context" where
  "WithSeed ctx seed = ctx\<lparr>ctx_seed := Some seed\<rparr>"

definition seedFromContext :: "Context \<Rightarrow> int \<times> bool" where
  "seedFromContext ctx = (case ctx_seed ctx of Some seed \<Rightarrow> (seed, True) | None \<Rightarrow> (0, False))"

text \<open>
  The generator of \<open>math/rand\<close> and the clock are outside the repository. The run-time
  environment supplies both: \<open>NewSource seed\<close> is the sequence of raw values the
  generator seeded with \<open>seed\<close> yields, and \<open>UnixNano\<close> is the reading of
  \<open>time.Now().UnixNano()\<close> when the planner is built. \<open>Intn n\<close> consumes one raw value
  and reduces it into \<open>[0, n)\<close>; the source calls it with \<open>n > 0\<close> only.
\<close>

type_synonym rng = "nat \<Rightarrow> nat"

record runtime =
  NewSource :: "int \<Rightarrow> rng"
  UnixNano :: int

definition Intn :: "rng \<Rightarrow> nat \<Rightarrow> nat \<times> rng" where
  "Intn g n = (g 0 mod n, (\<lambda>i. g (Suc i)))"

subsection \<open>Constants\<close>

definition cycleMinTracks :: int where "cycleMinTracks = 6"
definition cycleMaxTracks :: int where "cycleMaxTracks = 10"
definition cycleIdealTracks :: int where "cycleIdealTracks = 8"

definition keyWeight :: real where "keyWeight = 12"
definition bpmWeight :: real where "bpmWeight = 0.8"
definition energyWeight :: real where "energyWeight = 2"

definition varietyStepThreshold :: int where "varietyStepThreshold = 2"
definition varietyStepWeight :: real where "varietyStepWeight = 3"
definition varietyLetterThreshold :: int where "varietyLetterThreshold = 5"
definition varietyLetterWeight :: real where "varietyLetterWeight = 2.5"
definition varietyEnergyThreshold :: int where "varietyEnergyThreshold = 5"
definition varietyEnergyReward :: real where "varietyEnergyReward = 1.5"
definition varietyEnergyPenalty :: real where "varietyEnergyPenalty = 0.6"
definition energyDropThreshold :: real where "energyDropThreshold = 10"
definition startSelectionTolerance :: real where "startSelectionTolerance = 1"

subsection \<open>Data\<close>

record mixStats =
  energySorted :: "int list"
  bpmSorted :: "real list"
  energyLow :: real
  energyHigh :: real
  energyMedian :: real
  bpmMedian :: real

record mixPlanner =
  remaining :: "Track list"
  pstats :: mixStats
  desiredCycleLength :: int
  countsByKey :: "Key \<rightharpoonup> int"
  countsByNumber :: "int \<rightharpoonup> int"
  rng :: rng
  totalTracks :: int
  targetCount :: int

record mixState =
  prev :: Track
  prevSet :: bool
  cycleIndex :: int
  tracksInCycle :: int
  cycleStartEnergy :: real
  desiredCycleLen :: int
  stats :: mixStats
  sameNumberStreak :: int
  stepsSinceStep1 :: int
  stepsSinceStep2 :: int
  stepsSinceLetterFlip :: int
  stepsSinceEnergyDrop :: int

record transition =
  diff :: int
  wrap :: bool
  modeChange :: bool

text \<open>Reading a Go map at a missing key gives the zero value.\<close>

definition lookup :: "('k \<rightharpoonup> int) \<Rightarrow> 'k \<Rightarrow> int" where
  "lookup m k = (case m k of None \<Rightarrow> 0 | Some v \<Rightarrow> v)"

subsection \<open>Float helpers of package math\<close>

text \<open>
  \<open>math.Round\<close> rounds to the nearest integer, halves away from zero; the conversion
  \<open>int(x)\<close> truncates toward zero; integer division truncates toward zero.
\<close>

definition math_Round :: "real \<Rightarrow> real" where
  "math_Round x = (if x < 0 then - of_int \<lfloor>- x + 1 / 2\<rfloor> else of_int \<lfloor>x + 1 / 2\<rfloor>)"

definition int_of_float :: "real \<Rightarrow> int" where
  "int_of_float x = (if x < 0 then \<lceil>x\<rceil> else \<lfloor>x\<rfloor>)"

definition quot :: "int \<Rightarrow> int \<Rightarrow> int" where
  "quot a b = sgn a * sgn b * (\<bar>a\<bar> div \<bar>b\<bar>)"

subsection \<open>Dataset preparation\<close>

definition quantileInts :: "int list \<Rightarrow> real \<Rightarrow> real" where
  "quantileInts values q =
     (if length values = 0 then 0
      else if q \<le> 0 then of_int (values ! 0)
      else if q \<ge> 1 then of_int (values ! (length values - 1))
      else
        let position = q * of_int (int (length values) - 1);
            lower = int_of_float (of_int \<lfloor>position\<rfloor>);
            upper = int_of_float (of_int \<lceil>position\<rceil>)
        in if lower = upper then of_int (values ! nat lower)
           else
             let fraction = position - of_int lower
             in of_int (values ! nat lower)
                + (of_int (values ! nat upper) - of_int (values ! nat lower)) * fraction)"

definition quantileFloats :: "real list \<Rightarrow> real \<Rightarrow> real" where
  "quantileFloats values q =
     (if length values = 0 then 0
      else if q \<le> 0 then values ! 0
      else if q \<ge> 1 then values ! (length values - 1)
      else
        let position = q * of_int (int (length values) - 1);
            lower = int_of_float (of_int \<lfloor>position\<rfloor>);
            upper = int_of_float (of_int \<lceil>position\<rceil>)
        in if lower = upper then values ! nat lower
           else
             let fraction = position - of_int lower
             in values ! nat lower + (values ! nat upper - values ! nat lower) * fraction)"

definition analyzeMixStats :: "Track list \<Rightarrow> mixStats" where
  "analyzeMixStats tracks =
     (let energies = sort (map Energy tracks);
          bpms = sort (map BPM tracks)
      in \<lparr>energySorted = energies,
          bpmSorted = bpms,
          energyLow = quantileInts energies 0.25,
          energyHigh = quantileInts energies 0.75,
          energyMedian = quantileInts energies 0.5,
          bpmMedian = quantileFloats bpms 0.5\<rparr>)"

definition idealCycleLength :: "int \<Rightarrow> int" where
  "idealCycleLength total_count =
     (if total_count \<le> cycleMinTracks then
        (if total_count = 0 then cycleMinTracks else total_count)
      else
        let estimatedCycles =
              int_of_float (max 1 (math_Round (of_int total_count / of_int cycleIdealTracks)));
            len =
              min (max (int_of_float (math_Round (of_int total_count / of_int estimatedCycles)))
                       cycleMinTracks)
                  cycleMaxTracks
        in len)"

fun countTracks ::
  "Track list \<Rightarrow> (Key \<rightharpoonup> int) \<times> (int \<rightharpoonup> int) \<Rightarrow> (Key \<rightharpoonup> int) \<times> (int \<rightharpoonup> int)" where
  "countTracks [] (byKey, byNumber) = (byKey, byNumber)"
| "countTracks (t # ts) (byKey, byNumber) =
     countTracks ts
       (byKey(Key t \<mapsto> lookup byKey (Key t) + 1),
        byNumber(Number (Key t) \<mapsto> lookup byNumber (Number (Key t)) + 1))"

definition newMixPlanner :: "runtime \<Rightarrow> Context \<Rightarrow> Track list \<Rightarrow> int \<Rightarrow> mixPlanner" where
  "newMixPlanner rt ctx tracks target =
     (let remaining = map Clone tracks;
          stats = analyzeMixStats remaining;
          (countsByKey, countsByNumber) = countTracks remaining (Map.empty, Map.empty);
          desired = idealCycleLength (int (length remaining));
          (seed, ok) = seedFromContext ctx;
          seed = (if \<not> ok \<or> seed = 0 then UnixNano rt else seed);
          rng = NewSource rt seed
      in \<lparr>remaining = remaining,
          pstats = stats,
          desiredCycleLength = desired,
          countsByKey = countsByKey,
          countsByNumber = countsByNumber,
          rng = rng,
          totalTracks = int (length tracks),
          targetCount = target\<rparr>)"

definition initialState :: "mixPlanner \<Rightarrow> Track \<Rightarrow> mixState" where
  "initialState p start =
     \<lparr>prev = start,
      prevSet = True,
      cycleIndex = 0,
      tracksInCycle = 1,
      cycleStartEnergy = of_int (Energy start),
      desiredCycleLen = desiredCycleLength p,
      stats = pstats p,
      sameNumberStreak = 0,
      stepsSinceStep1 = 0,
      stepsSinceStep2 = 0,
      stepsSinceLetterFlip = 0,
      stepsSinceEnergyDrop = 0\<rparr>"

subsection \<open>Start selection\<close>

definition startScore :: "mixPlanner \<Rightarrow> Track \<Rightarrow> real" where
  "startScore p candidate =
     (let keyCount = (of_int (lookup (countsByNumber p) (Number (Key candidate))) :: real);
          modeCount = (of_int (lookup (countsByKey p) (Key candidate)) :: real);
          freqScore = - keyCount * 6;
          freqScore = (if modeCount > 1 then freqScore - 1 else freqScore);
          energyTarget = energyLow (pstats p);
          energyDiff = \<bar>of_int (Energy candidate) - energyTarget\<bar>;
          bpmDiff = \<bar>BPM candidate - bpmMedian (pstats p)\<bar>
      in freqScore + energyDiff * 0.2 + bpmDiff * 0.05)"

text \<open>
  The loop of \<open>chooseStartIndex\<close>. The best score starts at plus infinity, written \<open>None\<close>:
  every score is below \<open>+Inf - tolerance\<close>.
\<close>

definition below_best :: "real \<Rightarrow> real option \<Rightarrow> bool" where
  "below_best score bestScore =
     (case bestScore of None \<Rightarrow> True | Some b \<Rightarrow> score < b - startSelectionTolerance)"

definition near_best :: "real \<Rightarrow> real option \<Rightarrow> bool" where
  "near_best score bestScore =
     (case bestScore of None \<Rightarrow> True | Some b \<Rightarrow> score \<le> b + startSelectionTolerance)"

fun startLoop ::
  "mixPlanner \<Rightarrow> nat \<Rightarrow> Track list \<Rightarrow> real option \<Rightarrow> nat list \<Rightarrow> real option \<times> nat list" where
  "startLoop p i [] bestScore candidates = (bestScore, candidates)"
| "startLoop p i (candidate # rest) bestScore candidates =
     (let score = startScore p candidate
      in if below_best score bestScore then startLoop p (Suc i) rest (Some score) [i]
         else if near_best score bestScore then startLoop p (Suc i) rest bestScore (candidates @ [i])
         else startLoop p (Suc i) rest bestScore candidates)"

definition chooseStartIndex :: "mixPlanner \<Rightarrow> nat \<times> mixPlanner" where
  "chooseStartIndex p =
     (let candidates = snd (startLoop p 0 (remaining p) None [])
      in if length candidates = 0 then (0, p)
         else
           let (r, g) = Intn (rng p) (length candidates)
           in (candidates ! r, p\<lparr>rng := g\<rparr>))"

subsection \<open>Transitions and their categories\<close>

definition computeTransition :: "mixState \<Rightarrow> Track \<Rightarrow> transition" where
  "computeTransition state candidate =
     (if \<not> prevSet state then \<lparr>diff = 0, wrap = False, modeChange = False\<rparr>
      else
        let prevNumber = Number (Key (prev state));
            nextNumber = Number (Key candidate);
            d = nextNumber - prevNumber;
            (d, w) = (if d < 0 then (d + 12, True) else (d, False));
            mc = (Mode (Key candidate) \<noteq> Mode (Key (prev state)))
        in \<lparr>diff = d, wrap = w, modeChange = mc\<rparr>)"

definition categorizeTransition :: "mixState \<Rightarrow> transition \<Rightarrow> int" where
  "categorizeTransition state tr =
     (if \<not> prevSet state then 0
      else if modeChange tr \<and> diff tr > 0 then 4
      else if diff tr = 1 then (if modeChange tr then 4 else 0)
      else if diff tr = 2 then (if modeChange tr then 4 else 1)
      else if diff tr = 0 then (if modeChange tr then 3 else 2)
      else 4)"

fun shallowLoop :: "mixState \<Rightarrow> Track list \<Rightarrow> int \<Rightarrow> bool" where
  "shallowLoop state [] maxStep = False"
| "shallowLoop state (cand # rest) maxStep =
     (let tr = computeTransition state cand
      in if diff tr = 0 then True
         else if modeChange tr then shallowLoop state rest maxStep
         else if diff tr > 0 \<and> diff tr \<le> maxStep then True
         else shallowLoop state rest maxStep)"

definition hasShallowStepOption :: "mixState \<Rightarrow> mixPlanner \<Rightarrow> int \<Rightarrow> bool" where
  "hasShallowStepOption state p maxStep =
     (if \<not> prevSet state then True else shallowLoop state (remaining p) maxStep)"

fun uniqueLoop :: "int list \<Rightarrow> int list \<Rightarrow> int list \<Rightarrow> int list" where
  "uniqueLoop seen unique [] = unique"
| "uniqueLoop seen unique (v # rest) =
     (if v \<in> set seen then uniqueLoop seen unique rest
      else uniqueLoop (v # seen) (unique @ [v]) rest)"

definition categoryOrder :: "mixState \<Rightarrow> int list" where
  "categoryOrder state =
     (let order = [0, 1, 2, 3, 4]
      in if \<not> prevSet state then order
         else
           let order = (if stepsSinceStep2 state \<ge> varietyStepThreshold then [1, 0, 2, 3, 4]
                        else if stepsSinceStep1 state \<ge> varietyStepThreshold then [0, 1, 2, 3, 4]
                        else order);
               order = (if stepsSinceLetterFlip state \<ge> varietyLetterThreshold then 3 # order
                        else order)
           in uniqueLoop [] [] order)"

subsection \<open>The cost of a transition\<close>

definition keyTransitionCost :: "mixState \<Rightarrow> transition \<Rightarrow> real" where
  "keyTransitionCost state tr =
     (if \<not> prevSet state then 0
      else
        let d = diff tr;
            cost = (if d = 0 then 3
                    else if d = 1 then 0
                    else if d = 2 then 0
                    else if d = 3 then 2
                    else of_int (d * d) / 2);
            cost = (if modeChange tr \<and> d > 0 then cost + 12 else cost);
            cost = (if wrap tr \<and> d > 2 then
                      (let basePenalty = (6::real);
                           basePenalty =
                             (if tracksInCycle state \<ge> desiredCycleLen state - 1 then basePenalty * 0.4
                              else if tracksInCycle state \<ge> desiredCycleLen state - 2 then basePenalty * 0.6
                              else basePenalty)
                       in cost + basePenalty)
                    else cost)
        in cost)"

definition nextEnergyTarget :: "mixState \<Rightarrow> mixStats \<Rightarrow> int \<Rightarrow> real" where
  "nextEnergyTarget state st cycleLen =
     (let base = cycleStartEnergy state;
          high = energyHigh st;
          high = (if high \<le> base then min 100 (base + 12) else high);
          progress = of_int (tracksInCycle state) / of_int (max cycleLen 1);
          progress = (if progress > 1 then 1 else progress)
      in base + (high - base) * progress)"

definition energyTransitionCost ::
  "mixState \<Rightarrow> Track \<Rightarrow> transition \<Rightarrow> mixStats \<Rightarrow> int \<Rightarrow> real" where
  "energyTransitionCost state candidate tr st cycleLen =
     (let energy = (of_int (Energy candidate) :: real)
      in if \<not> prevSet state then \<bar>energy - energyLow st\<bar> / 8
         else
           let delta = energy - of_int (Energy (prev state));
               drop = - delta
           in if wrap tr then
                (let target = energyLow st;
                     cost = \<bar>energy - target\<bar> / 6;
                     cost = (if drop < 12 then cost + (12 - drop) / 6 else cost);
                     cost = (if drop \<ge> energyDropThreshold
                                \<and> stepsSinceEnergyDrop state \<ge> varietyEnergyThreshold then
                               cost - of_int (stepsSinceEnergyDrop state - varietyEnergyThreshold + 1)
                                      * varietyEnergyReward
                             else if drop < energyDropThreshold
                                \<and> stepsSinceEnergyDrop state \<ge> varietyEnergyThreshold + 2 then
                               cost + of_int (stepsSinceEnergyDrop state - (varietyEnergyThreshold + 1))
                                      * varietyEnergyPenalty
                             else cost);
                     cost = (if cost < - 5 then - 5 else cost)
                 in cost)
              else
                (let target = nextEnergyTarget state st cycleLen;
                     cost = \<bar>energy - target\<bar> / 9;
                     cost = (if delta < 0 then
                               (if tracksInCycle state > quot cycleLen 2 then cost + \<bar>delta\<bar> / 10
                                else cost + \<bar>delta\<bar> / 6)
                             else if delta > 12 then cost + (delta - 12) / 8
                             else cost);
                     cost = (if drop \<ge> energyDropThreshold
                                \<and> stepsSinceEnergyDrop state \<ge> varietyEnergyThreshold then
                               cost - of_int (stepsSinceEnergyDrop state - varietyEnergyThreshold + 1)
                                      * varietyEnergyReward
                             else if drop < energyDropThreshold
                                \<and> stepsSinceEnergyDrop state \<ge> varietyEnergyThreshold + 2 then
                               cost + of_int (stepsSinceEnergyDrop state - (varietyEnergyThreshold + 1))
                                      * varietyEnergyPenalty
                             else cost);
                     cost = (if cost < - 5 then - 5 else cost)
                 in cost))"

definition bpmTransitionCost :: "mixState \<Rightarrow> Track \<Rightarrow> mixStats \<Rightarrow> real" where
  "bpmTransitionCost state candidate st =
     (if \<not> prevSet state then \<bar>BPM candidate - bpmMedian st\<bar> / 6
      else
        let d = \<bar>BPM candidate - BPM (prev state)\<bar>
        in if d \<le> 1 then d * 0.2
           else if d \<le> 2.5 then d * 0.4
           else if d \<le> 5 then 0.8 + (d - 2.5) * 0.5
           else 2 + (d - 5) * 0.7)"

definition transitionScoreWithTransition ::
  "mixPlanner \<Rightarrow> mixState \<Rightarrow> Track \<Rightarrow> transition \<Rightarrow> real" where
  "transitionScoreWithTransition p state candidate tr =
     (let keyCost = keyTransitionCost state tr;
          energyCost = energyTransitionCost state candidate tr (pstats p) (desiredCycleLength p);
          bpmCost = bpmTransitionCost state candidate (pstats p);
          remainingCount = (of_int (lookup (countsByNumber p) (Number (Key candidate))) :: real);
          flexCost = (if remainingCount > 0 then 1 / remainingCount else 0);
          total = keyCost * keyWeight + bpmCost * bpmWeight + energyCost * energyWeight + flexCost;
          coverage =
            (if totalTracks p > 0 then
               (let coverage = (of_int (targetCount p) :: real) / of_int (totalTracks p);
                    coverage = (if coverage > 1 then 1 else coverage);
                    coverage = (if coverage < 0.1 then 0.1 else coverage)
                in coverage)
             else 1);
          total =
            (if prevSet state then
               (let total =
                      (if diff tr > 0 then
                         (let remainingCurrent =
                                (of_int (lookup (countsByNumber p) (Number (Key (prev state)))) :: real);
                              total = (if remainingCurrent > 0
                                       then total + remainingCurrent * 0.5 * coverage else total);
                              remainingMode =
                                (of_int (lookup (countsByKey p) (Key (prev state))) :: real);
                              total = (if remainingMode > 0
                                       then total + remainingMode * 1.0 * coverage else total)
                          in total)
                       else total);
                    total = (if diff tr \<ge> 3 \<and> hasShallowStepOption state p 2
                             then total + of_int ((diff tr - 2) * 8) + 18 else total)
                in total)
             else total);
          total =
            (if prevSet state then
               (let total =
                      (if diff tr = 1 then
                         (let total =
                                (if stepsSinceStep1 state \<ge> varietyStepThreshold
                                 then total - of_int (stepsSinceStep1 state - varietyStepThreshold + 1)
                                              * varietyStepWeight
                                 else total);
                              total =
                                (if stepsSinceStep2 state \<ge> varietyStepThreshold + 1
                                 then total + of_int (stepsSinceStep2 state - varietyStepThreshold)
                                              * (varietyStepWeight * 0.7)
                                 else total)
                          in total)
                       else total);
                    total =
                      (if diff tr = 2 then
                         (let total =
                                (if stepsSinceStep2 state \<ge> varietyStepThreshold
                                 then total - of_int (stepsSinceStep2 state - varietyStepThreshold + 1)
                                              * varietyStepWeight
                                 else total);
                              total =
                                (if stepsSinceStep1 state \<ge> varietyStepThreshold + 1
                                 then total + of_int (stepsSinceStep1 state - varietyStepThreshold)
                                              * (varietyStepWeight * 0.7)
                                 else total)
                          in total)
                       else total);
                    total =
                      (if diff tr = 0 \<and> modeChange tr
                          \<and> stepsSinceLetterFlip state \<ge> varietyLetterThreshold
                       then total - of_int (stepsSinceLetterFlip state - varietyLetterThreshold + 1)
                                    * varietyLetterWeight
                       else total)
                in total)
             else total);
          baseWeight = 0.6 * coverage;
          total = total - remainingCount * baseWeight;
          total = total - of_int (lookup (countsByKey p) (Key candidate)) * baseWeight;
          total = (if wrap tr \<and> diff tr > 2 \<and> tracksInCycle state < cycleMinTracks
                   then total + 7 else total);
          total =
            (if wrap tr \<and> diff tr > 2 then
               (if prevSet state then
                  (let remainingCurrent =
                         (of_int (lookup (countsByNumber p) (Number (Key (prev state)))) :: real)
                   in if remainingCurrent > 0 then total + remainingCurrent * 2 else total)
                else total)
             else total);
          total = (if prevSet state \<and> diff tr = 0
                   then total + of_int (sameNumberStreak state + 1) * 6 else total)
      in total)"

subsection \<open>Step selection\<close>

record choice =
  idx :: nat
  score :: real
  is_set :: bool

definition closeFloat :: "real \<Rightarrow> real \<Rightarrow> bool" where
  "closeFloat a b = (\<bar>a - b\<bar> \<le> 1 / 1000000)"

text \<open>
  The scoring loop of \<open>chooseNextIndex\<close>: one pass over the pool, keeping per category the
  best candidate seen so far, a near-tie decided by \<open>Intn 2\<close>.
\<close>

fun nextLoop ::
  "mixPlanner \<Rightarrow> mixState \<Rightarrow> nat \<Rightarrow> Track list \<Rightarrow> choice list \<Rightarrow> rng \<Rightarrow> choice list \<times> rng" where
  "nextLoop p state i [] buckets g = (buckets, g)"
| "nextLoop p state i (candidate # rest) buckets g =
     (let tr = computeTransition state candidate;
          sc = transitionScoreWithTransition p state candidate tr;
          category = categorizeTransition state tr
      in if category < 0 \<or> category \<ge> int (length buckets) then
           nextLoop p state (Suc i) rest buckets g
         else
           let best = buckets ! nat category
           in if \<not> is_set best \<or> sc < score best - 1 / 1000000 then
                nextLoop p state (Suc i) rest
                  (buckets[nat category := best\<lparr>idx := i, score := sc, is_set := True\<rparr>]) g
              else if is_set best \<and> closeFloat sc (score best) then
                (let (r, g') = Intn g 2
                 in if r = 0 then
                      nextLoop p state (Suc i) rest
                        (buckets[nat category := best\<lparr>idx := i, score := sc\<rparr>]) g'
                    else nextLoop p state (Suc i) rest buckets g')
              else nextLoop p state (Suc i) rest buckets g)"

text \<open>
  The final loop over the category order; \<open>None\<close> is falling out of the loop, to the
  fallback \<open>return 0\<close>.
\<close>

fun firstSetBucket :: "choice list \<Rightarrow> int list \<Rightarrow> nat option" where
  "firstSetBucket buckets [] = None"
| "firstSetBucket buckets (category # rest) =
     (if is_set (buckets ! nat category) then Some (idx (buckets ! nat category))
      else firstSetBucket buckets rest)"

definition emptyBuckets :: "choice list" where
  "emptyBuckets = replicate 5 \<lparr>idx = 0, score = 0, is_set = False\<rparr>"

definition chooseNextIndex :: "mixPlanner \<Rightarrow> mixState \<Rightarrow> nat \<times> mixPlanner" where
  "chooseNextIndex p state =
     (let (buckets, g) = nextLoop p state 0 (remaining p) emptyBuckets (rng p);
          order = categoryOrder state
      in (case firstSetBucket buckets order of Some i \<Rightarrow> i | None \<Rightarrow> 0, p\<lparr>rng := g\<rparr>))"

subsection \<open>Taking a track and advancing the state\<close>

definition decrement :: "('k \<rightharpoonup> int) \<Rightarrow> 'k \<Rightarrow> ('k \<rightharpoonup> int)" where
  "decrement m k =
     (let m' = m(k \<mapsto> lookup m k - 1)
      in if lookup m' k \<le> 0 then m'(k := None) else m')"

definition take_track :: "mixPlanner \<Rightarrow> nat \<Rightarrow> (Track \<times> mixPlanner) option" where
  "take_track p i =
     (if i \<ge> length (remaining p) then None
      else
        let selected = remaining p ! i;
            byKey = decrement (countsByKey p) (Key selected);
            byNumber = decrement (countsByNumber p) (Number (Key selected));
            last_index = length (remaining p) - 1;
            rem = take last_index ((remaining p)[i := remaining p ! last_index])
        in Some (selected,
                 p\<lparr>countsByKey := byKey, countsByNumber := byNumber, remaining := rem\<rparr>))"

definition remainingCount :: "mixPlanner \<Rightarrow> int" where
  "remainingCount p = int (length (remaining p))"

definition cappedIncrement :: "int \<Rightarrow> int" where
  "cappedIncrement v = (if v < 100 then v + 1 else 100)"

definition advance :: "mixState \<Rightarrow> Track \<Rightarrow> mixState" where
  "advance state next =
     (if \<not> prevSet state then
        state\<lparr>prev := next, prevSet := True, cycleStartEnergy := of_int (Energy next),
              tracksInCycle := 1, sameNumberStreak := 0, stepsSinceStep1 := 0,
              stepsSinceStep2 := 0, stepsSinceLetterFlip := 0, stepsSinceEnergyDrop := 0\<rparr>
      else
        let previous = prev state;
            tr = computeTransition state next;
            state = state\<lparr>prev := next\<rparr>;
            state = (if wrap tr then
                       state\<lparr>cycleIndex := cycleIndex state + 1, tracksInCycle := 1,
                             cycleStartEnergy := of_int (Energy next)\<rparr>
                     else state\<lparr>tracksInCycle := tracksInCycle state + 1\<rparr>);
            state = (if diff tr = 0
                     then state\<lparr>sameNumberStreak := sameNumberStreak state + 1\<rparr>
                     else state\<lparr>sameNumberStreak := 0\<rparr>);
            state = state\<lparr>stepsSinceStep1 := cappedIncrement (stepsSinceStep1 state)\<rparr>;
            state = state\<lparr>stepsSinceStep2 := cappedIncrement (stepsSinceStep2 state)\<rparr>;
            state = state\<lparr>stepsSinceLetterFlip := cappedIncrement (stepsSinceLetterFlip state)\<rparr>;
            state = state\<lparr>stepsSinceEnergyDrop := cappedIncrement (stepsSinceEnergyDrop state)\<rparr>;
            state = (if diff tr = 1 then state\<lparr>stepsSinceStep1 := 0\<rparr> else state);
            state = (if diff tr = 2 then state\<lparr>stepsSinceStep2 := 0\<rparr> else state);
            state = (if Mode (Key previous) \<noteq> Mode (Key next)
                     then state\<lparr>stepsSinceLetterFlip := 0\<rparr> else state);
            energyDelta = (of_int (Energy next - Energy previous) :: real);
            state = (if - energyDelta \<ge> energyDropThreshold
                     then state\<lparr>stepsSinceEnergyDrop := 0\<rparr> else state)
        in state)"

subsection \<open>Sort\<close>

text \<open>
  \<open>Sort\<close> returns the pair of Go: the ordered tracks (the nil slice is the empty list) and
  the error, \<open>None\<close> for \<open>nil\<close>. The outer option is \<open>None\<close> when the run panics on an
  index out of range. The greedy loop polls the cancellation signal at the start of every
  iteration; \<open>k\<close> counts the polls.
\<close>

function sortLoop ::
  "Context \<Rightarrow> int \<Rightarrow> nat \<Rightarrow> mixPlanner \<Rightarrow> mixState \<Rightarrow> Track list
     \<Rightarrow> (Track list \<times> ctx_error option) option" where
  "sortLoop ctx target k planner state ordered =
     (if remainingCount planner > 0 \<and> int (length ordered) < target then
        (case ctx_done ctx k of
           Some err \<Rightarrow> Some ([], Some err)
         | None \<Rightarrow>
             (case take_track (snd (chooseNextIndex planner state))
                     (fst (chooseNextIndex planner state)) of
                None \<Rightarrow> None
              | Some (next, planner') \<Rightarrow>
                  sortLoop ctx target (Suc k) planner' (advance state next) (ordered @ [next])))
      else Some (ordered, None))"
  by pat_completeness auto
termination
proof (relation "measure (\<lambda>(ctx, target, k, planner, state, ordered). length (remaining planner))")
  show "wf (measure (\<lambda>(ctx, target, k, planner, state, ordered). length (remaining planner)))"
    by simp
next
  fix ctx :: Context and target :: int and k :: nat and planner :: mixPlanner
    and state :: mixState and ordered :: "Track list" and x2 x y
  assume t: "take_track (snd (chooseNextIndex planner state))
               (fst (chooseNextIndex planner state)) = Some x2"
    and x: "(x, y) = x2"
  define q where "q = snd (chooseNextIndex planner state)"
  have r: "remaining q = remaining planner"
    by (simp add: q_def chooseNextIndex_def Let_def split: prod.splits)
  have "length (remaining y) < length (remaining q)"
    using t x unfolding q_def[symmetric] take_track_def Let_def
    by (auto split: if_splits)
  then show "((ctx, target, Suc k, y, advance state x, ordered @ [x]),
              (ctx, target, k, planner, state, ordered))
             \<in> measure (\<lambda>(ctx, target, k, planner, state, ordered). length (remaining planner))"
    using r by simp
qed

declare sortLoop.simps [simp del]

definition Sort :: "runtime \<Rightarrow> Context \<Rightarrow> Track list \<Rightarrow> (Track list \<times> ctx_error option) option" where
  "Sort rt ctx tracks =
     (if length tracks \<le> 1 then Some (map Clone tracks, None)
      else
        let target = int (length tracks);
            limit = limitFromContext ctx;
            target = (if limit > 0 \<and> limit < target then limit else target);
            planner = newMixPlanner rt ctx tracks target;
            ordered = [];
            (startIdx, planner) = chooseStartIndex planner
        in case take_track planner startIdx of
             None \<Rightarrow> None
           | Some (start, planner) \<Rightarrow>
               let state = initialState planner start;
                   ordered = ordered @ [start]
               in if int (length ordered) \<ge> target then Some (ordered, None)
                  else sortLoop ctx target 0 planner state ordered)"

subsection \<open>Example inputs\<close>

text \<open>
  The three-track example of the specification (BPM 120, 121, 122; energies 50, 60, 70; keys
  1A, 2A, 3A), a run-time environment whose generator seeded with \<open>s\<close> yields
  \<open>|s|, |s| + 1, ...\<close>, the planner built for the three tracks and the state after the
  first of them.
\<close>

definition example_track :: "string \<Rightarrow> real \<Rightarrow> int \<Rightarrow> int \<Rightarrow> Mode \<Rightarrow> Track" where
  "example_track t b e n m =
     \<lparr>Title = t, Artist = ''artist'', BPM = b, Energy = e, Key = \<lparr>Number = n, Mode = m\<rparr>\<rparr>"

definition example_tracks :: "Track list" where
  "example_tracks =
     [example_track ''one'' 120 50 1 ModeA,
      example_track ''two'' 121 60 2 ModeA,
      example_track ''three'' 122 70 3 ModeA]"

definition example_runtime :: runtime where
  "example_runtime = \<lparr>NewSource = (\<lambda>seed i. nat \<bar>seed\<bar> + i), UnixNano = 7\<rparr>"

definition example_planner :: mixPlanner where
  "example_planner = newMixPlanner example_runtime (WithSeed Background 5) example_tracks 3"

definition example_state :: mixState where
  "example_state = initialState example_planner (example_track ''one'' 120 50 1 ModeA)"

subsection \<open>Vocabulary of the proofs\<close>

text \<open>The category in which the scoring loop files a candidate.\<close>

definition category_of :: "mixState \<Rightarrow> Track \<Rightarrow> int" where
  "category_of state t = categorizeTransition state (computeTransition state t)"

text \<open>
  The invariant of the scoring loop after \<open>n\<close> candidates of the pool: there are five
  buckets, a bucket that is set holds the index of a processed candidate of its own
  category, and the bucket of every processed candidate is set.
\<close>

definition buckets_ok :: "mixState \<Rightarrow> Track list \<Rightarrow> nat \<Rightarrow> choice list \<Rightarrow> bool" where
  "buckets_ok state pool n bs \<longleftrightarrow>
     length bs = 5
     \<and> (\<forall>c<5. is_set (bs ! c) \<longrightarrow>
           idx (bs ! c) < n \<and> category_of state (pool ! idx (bs ! c)) = int c)
     \<and> (\<forall>j<n. is_set (bs ! nat (category_of state (pool ! j))))"

text \<open>
  A shallow candidate: key-number distance 0, or distance at most 2 without mode change.
\<close>

definition shallow :: "mixState \<Rightarrow> Track \<Rightarrow> bool" where
  "shallow state t =
     (let tr = computeTransition state t
      in diff tr = 0 \<or> (\<not> modeChange tr \<and> 0 < diff tr \<and> diff tr \<le> 2))"

text \<open>
  The start selection as the specification words it: the candidates whose start score is
  within the tolerance of the minimum start score.
\<close>

definition min_start_score :: "mixPlanner \<Rightarrow> real" where
  "min_start_score p = Min (set (map (startScore p) (remaining p)))"


text \<open>
  The invariant of the start scan after \<open>n\<close> candidates, \<open>sc j\<close> being the start score of
  the candidate at index \<open>j\<close>: the best score is the score of an
  anchor candidate \<open>a\<close>, the collected candidates are those from the anchor on that score
  at most the tolerance above it, and no processed candidate undercuts the anchor by more
  than the tolerance.
\<close>

definition start_inv :: "(nat \<Rightarrow> real) \<Rightarrow> nat \<Rightarrow> real option \<Rightarrow> nat list \<Rightarrow> bool" where
  "start_inv sc n bestScore candidates \<longleftrightarrow>
     (n = 0 \<longrightarrow> bestScore = None \<and> candidates = [])
     \<and> (n > 0 \<longrightarrow>
          (\<exists>a<n. bestScore = Some (sc a)
             \<and> set candidates = {j. a \<le> j \<and> j < n \<and> sc j \<le> sc a + startSelectionTolerance}
             \<and> (\<forall>j<n. sc a - startSelectionTolerance \<le> sc j)))"



text \<open>
  The target length \<open>Sort\<close> works with: the limit of the context when it is positive and
  below the number of tracks, the number of tracks otherwise.
\<close>

definition effective_target :: "Context \<Rightarrow> Track list \<Rightarrow> int" where
  "effective_target ctx tracks =
     (let n = int (length tracks); limit = limitFromContext ctx
      in if limit > 0 \<and> limit < n then limit else n)"

text \<open>
  The first of the polls \<open>k, k + 1, ..., k + n - 1\<close> of the cancellation signal that finds
  it fired, with the error it reports.
\<close>

fun first_fired :: "(nat \<Rightarrow> ctx_error option) \<Rightarrow> nat \<Rightarrow> nat \<Rightarrow> ctx_error option" where
  "first_fired d k 0 = None"
| "first_fired d k (Suc n) = (case d k of Some e \<Rightarrow> Some e | None \<Rightarrow> first_fired d (Suc k) n)"

text \<open>The number of iterations the greedy loop has ahead of it.\<close>

definition steps_left :: "int \<Rightarrow> Track list \<Rightarrow> mixPlanner \<Rightarrow> nat" where
  "steps_left target ordered planner =
     min (nat (target - int (length ordered))) (length (remaining planner))"

section \<open>Inputs of at most one track\<close>

lemma Clone_id: "Clone t = t"
  by (simp add: Clone_def)

lemma map_Clone: "map Clone ts = ts"
  by (induction ts) (simp_all add: Clone_id)

text \<open>
  Claim C5. For every input track list of length 0 or 1, whatever the target length, the
  seed and the cancellation signal, \<open>Sort\<close> succeeds and returns exactly the input list,
  each track an unmodified value copy.
\<close>

theorem Sort_short_input:
  "length tracks \<le> 1 \<Longrightarrow> Sort rt ctx tracks = Some (tracks, None)"
  by (simp add: Sort_def map_Clone)

text \<open>The theorem at a one-track input, with a limit, a seed and a cancelled context.\<close>

theorem Sort_short_input_witness:
  "Sort \<lparr>NewSource = (\<lambda>seed i. i), UnixNano = 0\<rparr>
        \<lparr>ctx_limit = Some 5, ctx_seed = Some 3, ctx_done = (\<lambda>k. Some Canceled)\<rparr>
        [\<lparr>Title = ''t'', Artist = ''a'', BPM = 120, Energy = 50, Key = \<lparr>Number = 1, Mode = ''A''\<rparr>\<rparr>]
   = Some ([\<lparr>Title = ''t'', Artist = ''a'', BPM = 120, Energy = 50, Key = \<lparr>Number = 1, Mode = ''A''\<rparr>\<rparr>], None)"
  by (rule Sort_short_input) simp

section \<open>The desired cycle length\<close>

lemma math_Round_nonneg: "0 \<le> x \<Longrightarrow> math_Round x = of_int (round x)"
  by (simp add: math_Round_def round_def)

lemma int_of_float_of_int: "int_of_float (of_int k) = k"
  by (simp add: int_of_float_def)

lemma max_one_of_int: "max (1::real) (of_int k) = of_int (max 1 k)"
  by (simp add: max_def)

text \<open>
  Claim C6. For every total track count \<open>n\<close>: the desired cycle length is 6 when
  \<open>n = 0\<close>, it is \<open>n\<close> when \<open>1 \<le> n \<le> 6\<close>, and otherwise it is
  \<open>round (n / max 1 (round (n / 8)))\<close> clamped to the interval from 6 to 10.
\<close>

theorem idealCycleLength_formula:
  "idealCycleLength (int n) =
     (if n = 0 then 6
      else if n \<le> 6 then int n
      else min 10 (max 6 (round (real n / of_int (max 1 (round (real n / 8)))))))"
proof (cases "n \<le> 6")
  case True
  then show ?thesis by (simp add: idealCycleLength_def cycleMinTracks_def)
next
  case False
  define k where "k = max 1 (round (real n / 8))"
  have k: "1 \<le> k" by (simp add: k_def)
  have e: "int_of_float (max 1 (math_Round (of_int (int n) / of_int cycleIdealTracks))) = k"
    by (simp add: math_Round_nonneg max_one_of_int int_of_float_of_int k_def cycleIdealTracks_def)
  have q: "0 \<le> real n / of_int k" using k by simp
  have l: "int_of_float (math_Round (of_int (int n) / of_int k)) = round (real n / of_int k)"
    using q by (simp add: math_Round_nonneg int_of_float_of_int)
  have "idealCycleLength (int n) = min (max (round (real n / of_int k)) 6) 10"
    using False unfolding idealCycleLength_def Let_def e l
    by (simp add: cycleMinTracks_def cycleMaxTracks_def)
  then show ?thesis using False by (simp add: k_def max.commute min.commute)
qed

section \<open>Transition categories\<close>

text \<open>A transition between two keys of the wheel has its difference in \<open>[0, 11]\<close>.\<close>

lemma computeTransition_diff_range:
  assumes "prevSet state" and "1 \<le> Number (Key (prev state))" and "Number (Key (prev state)) \<le> 12"
    and "1 \<le> Number (Key candidate)" and "Number (Key candidate) \<le> 12"
  shows "0 \<le> diff (computeTransition state candidate) \<and> diff (computeTransition state candidate) \<le> 11"
  using assms by (auto simp: computeTransition_def Let_def)

text \<open>
  Claim C7. For every transition with difference in \<open>[0, 11]\<close> computed once a previous
  track exists, the category is 0 exactly for difference 1 without mode change, 1 exactly
  for difference 2 without mode change, 2 exactly for difference 0 without mode change,
  3 exactly for difference 0 with a mode change, and 4 for everything else: difference at
  least 3, or a mode change combined with a positive difference.
\<close>

theorem categorizeTransition_table:
  assumes "prevSet state" and "0 \<le> diff tr" and "diff tr \<le> 11"
  shows "(categorizeTransition state tr = 0 \<longleftrightarrow> diff tr = 1 \<and> \<not> modeChange tr)
       \<and> (categorizeTransition state tr = 1 \<longleftrightarrow> diff tr = 2 \<and> \<not> modeChange tr)
       \<and> (categorizeTransition state tr = 2 \<longleftrightarrow> diff tr = 0 \<and> \<not> modeChange tr)
       \<and> (categorizeTransition state tr = 3 \<longleftrightarrow> diff tr = 0 \<and> modeChange tr)
       \<and> (categorizeTransition state tr = 4 \<longleftrightarrow> diff tr \<ge> 3 \<or> (modeChange tr \<and> diff tr > 0))
       \<and> categorizeTransition state tr \<in> {0, 1, 2, 3, 4}"
  using assms by (auto simp: categorizeTransition_def)

text \<open>The theorem at a jump of five key numbers.\<close>

theorem categorizeTransition_table_witness:
  "categorizeTransition
     \<lparr>prev = \<lparr>Title = ''t'', Artist = ''a'', BPM = 120, Energy = 50, Key = \<lparr>Number = 1, Mode = ''A''\<rparr>\<rparr>,
      prevSet = True, cycleIndex = 0, tracksInCycle = 1, cycleStartEnergy = 50, desiredCycleLen = 6,
      stats = \<lparr>energySorted = [], bpmSorted = [], energyLow = 0, energyHigh = 0, energyMedian = 0, bpmMedian = 0\<rparr>,
      sameNumberStreak = 0, stepsSinceStep1 = 0, stepsSinceStep2 = 0, stepsSinceLetterFlip = 0,
      stepsSinceEnergyDrop = 0\<rparr>
     \<lparr>diff = 5, wrap = False, modeChange = False\<rparr> = 4"
  using categorizeTransition_table
    [of "\<lparr>prev = \<lparr>Title = ''t'', Artist = ''a'', BPM = 120, Energy = 50, Key = \<lparr>Number = 1, Mode = ''A''\<rparr>\<rparr>,
      prevSet = True, cycleIndex = 0, tracksInCycle = 1, cycleStartEnergy = 50, desiredCycleLen = 6,
      stats = \<lparr>energySorted = [], bpmSorted = [], energyLow = 0, energyHigh = 0, energyMedian = 0, bpmMedian = 0\<rparr>,
      sameNumberStreak = 0, stepsSinceStep1 = 0, stepsSinceStep2 = 0, stepsSinceLetterFlip = 0,
      stepsSinceEnergyDrop = 0\<rparr>" "\<lparr>diff = 5, wrap = False, modeChange = False\<rparr>"]
  by simp

section \<open>The scan of start selection\<close>

lemma range_Suc_in:
  "a \<le> n \<Longrightarrow> P n \<Longrightarrow> {j. a \<le> j \<and> j < Suc n \<and> P j} = insert n {j. a \<le> j \<and> j < n \<and> P j}"
  by (auto simp: less_Suc_eq)

lemma range_Suc_out:
  "\<not> P n \<Longrightarrow> {j. a \<le> j \<and> j < Suc n \<and> P j} = {j. a \<le> j \<and> j < n \<and> P j}"
  by (auto simp: less_Suc_eq)

lemma range_single: "P n \<Longrightarrow> {j. n \<le> j \<and> j < Suc n \<and> P j} = {n}"
  by auto

lemma start_invI:
  assumes "a < n" and "best = Some (sc a)"
    and "set cands = {j. a \<le> j \<and> j < n \<and> sc j \<le> sc a + startSelectionTolerance}"
    and "\<forall>j<n. sc a - startSelectionTolerance \<le> sc j"
  shows "start_inv sc n best cands"
  unfolding start_inv_def using assms by auto

lemma start_inv_first:
  assumes "start_inv sc 0 best cands"
  shows "start_inv sc (Suc 0) (Some (sc 0)) [0]"
proof (rule start_invI[of 0])
  show "(0::nat) < Suc 0" by simp
  show "Some (sc 0) = Some (sc 0)" by simp
  have "sc 0 \<le> sc 0 + startSelectionTolerance" by (simp add: startSelectionTolerance_def)
  then show "set [0] = {j. 0 \<le> j \<and> j < Suc 0 \<and> sc j \<le> sc 0 + startSelectionTolerance}"
    using range_single[of "\<lambda>j. sc j \<le> sc 0 + startSelectionTolerance" 0] by simp
  show "\<forall>j<Suc 0. sc 0 - startSelectionTolerance \<le> sc j"
    by (simp add: startSelectionTolerance_def)
qed

lemma start_inv_reset:
  assumes a: "a < n" "\<forall>j<n. sc a - startSelectionTolerance \<le> sc j"
    and low: "sc n < sc a - startSelectionTolerance"
  shows "start_inv sc (Suc n) (Some (sc n)) [n]"
proof (rule start_invI[of n])
  show "n < Suc n" by simp
  show "Some (sc n) = Some (sc n)" by simp
  have "sc n \<le> sc n + startSelectionTolerance" by (simp add: startSelectionTolerance_def)
  then show "set [n] = {j. n \<le> j \<and> j < Suc n \<and> sc j \<le> sc n + startSelectionTolerance}"
    using range_single[of "\<lambda>j. sc j \<le> sc n + startSelectionTolerance" n] by simp
  show "\<forall>j<Suc n. sc n - startSelectionTolerance \<le> sc j"
  proof (intro allI impI)
    fix j assume "j < Suc n"
    then have "j = n \<or> j < n" by arith
    then show "sc n - startSelectionTolerance \<le> sc j"
    proof
      assume "j = n"
      then show ?thesis by (simp add: startSelectionTolerance_def)
    next
      assume "j < n"
      then have "sc a - startSelectionTolerance \<le> sc j" using a(2) by blast
      then show ?thesis using low by (simp add: startSelectionTolerance_def)
    qed
  qed
qed

lemma all_below_Suc:
  assumes "\<forall>j<n. (b::real) \<le> sc j" and "b \<le> sc n"
  shows "\<forall>j<Suc n. b \<le> sc j"
  using assms by (simp add: less_Suc_eq)

lemma start_inv_append:
  assumes a: "a < n" "set cands = {j. a \<le> j \<and> j < n \<and> sc j \<le> sc a + startSelectionTolerance}"
      "\<forall>j<n. sc a - startSelectionTolerance \<le> sc j"
    and nl: "\<not> sc n < sc a - startSelectionTolerance"
    and near: "sc n \<le> sc a + startSelectionTolerance"
  shows "start_inv sc (Suc n) (Some (sc a)) (cands @ [n])"
proof (rule start_invI[of a])
  show "a < Suc n" using a(1) by simp
  show "Some (sc a) = Some (sc a)" by simp
  have "a \<le> n" using a(1) by simp
  then have "{j. a \<le> j \<and> j < Suc n \<and> sc j \<le> sc a + startSelectionTolerance}
      = insert n {j. a \<le> j \<and> j < n \<and> sc j \<le> sc a + startSelectionTolerance}"
    using near by (rule range_Suc_in[of a n "\<lambda>j. sc j \<le> sc a + startSelectionTolerance"])
  then show "set (cands @ [n]) = {j. a \<le> j \<and> j < Suc n \<and> sc j \<le> sc a + startSelectionTolerance}"
    using a(2) by simp
  have "sc a - startSelectionTolerance \<le> sc n" using nl by simp
  with a(3) show "\<forall>j<Suc n. sc a - startSelectionTolerance \<le> sc j" by (rule all_below_Suc)
qed

lemma start_inv_skip:
  assumes a: "a < n" "set cands = {j. a \<le> j \<and> j < n \<and> sc j \<le> sc a + startSelectionTolerance}"
      "\<forall>j<n. sc a - startSelectionTolerance \<le> sc j"
    and nl: "\<not> sc n < sc a - startSelectionTolerance"
    and far: "\<not> sc n \<le> sc a + startSelectionTolerance"
  shows "start_inv sc (Suc n) (Some (sc a)) cands"
proof (rule start_invI[of a])
  show "a < Suc n" using a(1) by simp
  show "Some (sc a) = Some (sc a)" by simp
  have "{j. a \<le> j \<and> j < Suc n \<and> sc j \<le> sc a + startSelectionTolerance}
      = {j. a \<le> j \<and> j < n \<and> sc j \<le> sc a + startSelectionTolerance}"
    using far by (rule range_Suc_out[of "\<lambda>j. sc j \<le> sc a + startSelectionTolerance" n a])
  then show "set cands = {j. a \<le> j \<and> j < Suc n \<and> sc j \<le> sc a + startSelectionTolerance}"
    using a(2) by simp
  have "sc a - startSelectionTolerance \<le> sc n" using nl by simp
  with a(3) show "\<forall>j<Suc n. sc a - startSelectionTolerance \<le> sc j" by (rule all_below_Suc)
qed

lemma start_inv_step:
  assumes inv: "start_inv sc n best cands"
  shows "start_inv sc (Suc n)
           (if below_best (sc n) best then Some (sc n) else best)
           (if below_best (sc n) best then [n]
            else if near_best (sc n) best then cands @ [n] else cands)"
proof (cases "n = 0")
  case True
  then have b: "best = None" using inv by (simp add: start_inv_def)
  have "start_inv sc (Suc 0) (Some (sc 0)) [0]" using inv True start_inv_first by blast
  then show ?thesis using True b by (simp add: below_best_def)
next
  case False
  then have "0 < n" by simp
  then obtain a where a: "a < n" "best = Some (sc a)"
      "set cands = {j. a \<le> j \<and> j < n \<and> sc j \<le> sc a + startSelectionTolerance}"
      "\<forall>j<n. sc a - startSelectionTolerance \<le> sc j"
    using inv unfolding start_inv_def by blast
  show ?thesis
  proof (cases "sc n < sc a - startSelectionTolerance")
    case True
    have "start_inv sc (Suc n) (Some (sc n)) [n]" using a(1) a(4) True by (rule start_inv_reset)
    then show ?thesis using True a(2) by (simp add: below_best_def)
  next
    case nl: False
    show ?thesis
    proof (cases "sc n \<le> sc a + startSelectionTolerance")
      case True
      have "start_inv sc (Suc n) (Some (sc a)) (cands @ [n])"
        using a(1) a(3) a(4) nl True by (rule start_inv_append)
      then show ?thesis using True nl a(2) by (simp add: below_best_def near_best_def)
    next
      case False
      have "start_inv sc (Suc n) (Some (sc a)) cands"
        using a(1) a(3) a(4) nl False by (rule start_inv_skip)
      then show ?thesis using False nl a(2) by (simp add: below_best_def near_best_def)
    qed
  qed
qed

section \<open>Start selection\<close>

lemma startLoop_invariant:
  assumes "start_inv (\<lambda>j. startScore p (pool ! j)) (length pre) best cands" and "pool = pre @ rest"
  shows "start_inv (\<lambda>j. startScore p (pool ! j)) (length pool)
           (fst (startLoop p (length pre) rest best cands))
           (snd (startLoop p (length pre) rest best cands))"
  using assms
proof (induction rest arbitrary: pre best cands)
  case Nil
  then show ?case by simp
next
  case (Cons candidate rest)
  have at: "pool ! length pre = candidate"
    using Cons.prems(2) by simp
  have pool: "pool = (pre @ [candidate]) @ rest" using Cons.prems(2) by simp
  note st = start_inv_step[OF Cons.prems(1), unfolded at]
  have ih: "\<And>b c. start_inv (\<lambda>j. startScore p (pool ! j)) (Suc (length pre)) b c \<Longrightarrow>
      start_inv (\<lambda>j. startScore p (pool ! j)) (length pool)
        (fst (startLoop p (Suc (length pre)) rest b c))
        (snd (startLoop p (Suc (length pre)) rest b c))"
    using Cons.IH[of "pre @ [candidate]"] pool by simp
  show ?case
    using ih[OF st]
    by (cases "below_best (startScore p candidate) best";
        cases "near_best (startScore p candidate) best") (simp_all add: Let_def)
qed

lemma startLoop_start_inv:
  "start_inv (\<lambda>j. startScore p (remaining p ! j)) (length (remaining p))
     (fst (startLoop p 0 (remaining p) None [])) (snd (startLoop p 0 (remaining p) None []))"
  using startLoop_invariant[of p "remaining p" "[]" None "[]" "remaining p"]
  by (simp add: start_inv_def)

lemma chooseStartIndex_fst:
  "fst (chooseStartIndex p) =
     (let candidates = snd (startLoop p 0 (remaining p) None [])
      in if candidates = [] then 0 else candidates ! (rng p 0 mod length candidates))"
  by (simp add: chooseStartIndex_def Let_def Intn_def)

lemma chooseStartIndex_remaining:
  "remaining (snd (chooseStartIndex p)) = remaining p"
  by (simp add: chooseStartIndex_def Let_def Intn_def)

lemma min_start_score_le:
  assumes "j < length (remaining p)"
  shows "min_start_score p \<le> startScore p (remaining p ! j)"
  unfolding min_start_score_def using assms by (intro Min_le) auto





section \<open>The key-label parser\<close>

lemma byte_sub_ge:
  fixes x :: nat
  assumes "x < 256" and "48 \<le> x"
  shows "(x + 256 - 48) mod 256 = x - 48"
proof -
  have "x + 256 - 48 = (x - 48) + 256" using assms(2) by arith
  moreover have "x - 48 < 256" using assms(1) by arith
  ultimately show ?thesis by (simp only: mod_add_self2 mod_less)
qed

lemma byte_sub_lt:
  fixes x :: nat
  assumes "x < 48"
  shows "(x + 256 - 48) mod 256 = x + 208"
proof -
  have "x + 256 - 48 = x + 208" by arith
  moreover have "x + 208 < 256" using assms by arith
  ultimately show ?thesis by (simp only: mod_less)
qed

lemma byte_sub_nat:
  fixes x :: nat
  assumes "x < 256"
  shows "((x + 256 - 48) mod 256 > 9) = (\<not> (48 \<le> x \<and> x \<le> 57))"
    and "48 \<le> x \<Longrightarrow> (x + 256 - 48) mod 256 = x - 48"
proof -
  show "48 \<le> x \<Longrightarrow> (x + 256 - 48) mod 256 = x - 48"
    using assms by (rule byte_sub_ge)
  show "((x + 256 - 48) mod 256 > 9) = (\<not> (48 \<le> x \<and> x \<le> 57))"
  proof (cases "48 \<le> x")
    case True
    have e: "(x + 256 - 48) mod 256 = x - 48" using assms True by (rule byte_sub_ge)
    have "(x - 48 > 9) = (\<not> (48 \<le> x \<and> x \<le> 57))" using True by arith
    then show ?thesis unfolding e .
  next
    case False
    then have "x < 48" by arith
    then have e: "(x + 256 - 48) mod 256 = x + 208" by (rule byte_sub_lt)
    have "(x + 208 > 9) = (\<not> (48 \<le> x \<and> x \<le> 57))" using False by arith
    then show ?thesis unfolding e .
  qed
qed

lemma of_char_zero: "(of_char (CHR ''0'') :: nat) = 48"
  by simp

lemma digit_test:
  "(byte_sub ch (CHR ''0'') > 9) = (\<not> (48 \<le> (of_char ch :: nat) \<and> (of_char ch :: nat) \<le> 57))"
  unfolding byte_sub_def of_char_zero by (rule byte_sub_nat(1)) (rule nat_of_char_less_256)

lemma digit_val:
  "48 \<le> (of_char ch :: nat) \<Longrightarrow> byte_sub ch (CHR ''0'') = of_char ch - 48"
  unfolding byte_sub_def of_char_zero by (rule byte_sub_nat(2)) (rule nat_of_char_less_256)

lemma digit_char_of: "48 \<le> (of_char ch :: nat) \<Longrightarrow> digit_char (of_char ch - 48) = ch"
  unfolding digit_char_def by simp

lemma of_digit_char: "d < 10 \<Longrightarrow> (of_char (digit_char d) :: nat) = 48 + d"
  unfolding digit_char_def by (simp add: of_char_of)

lemma byte_sub_digit_char: "d < 10 \<Longrightarrow> byte_sub (digit_char d) (CHR ''0'') = d"
proof -
  assume d: "d < 10"
  have "48 \<le> (of_char (digit_char d) :: nat)" using of_digit_char[OF d] by arith
  then have "byte_sub (digit_char d) (CHR ''0'') = of_char (digit_char d) - 48" by (rule digit_val)
  also have "\<dots> = d" using of_digit_char[OF d] by arith
  finally show ?thesis .
qed

lemma byte_sub_digit:
  assumes "\<not> byte_sub ch (CHR ''0'') > 9"
  shows "ch = digit_char (byte_sub ch (CHR ''0''))"
proof -
  have ok: "48 \<le> (of_char ch :: nat)" using assms digit_test[of ch] by blast
  show ?thesis using digit_val[OF ok] digit_char_of[OF ok] by (simp only:)
qed

lemma atoi_digits_step:
  "atoi_digits n (a # s) = Some m \<longleftrightarrow> (\<exists>d<10. a = digit_char d \<and> atoi_digits (n * 10 + int d) s = Some m)"
proof
  assume L: "atoi_digits n (a # s) = Some m"
  let ?d = "byte_sub a (CHR ''0'')"
  have ok: "\<not> ?d > 9" using L by (auto simp: Let_def split: if_splits)
  have "atoi_digits (n * 10 + int ?d) s = Some m" using L ok by (simp add: Let_def)
  moreover have "?d < 10" using ok by arith
  moreover have "a = digit_char ?d" using ok by (rule byte_sub_digit)
  ultimately show "\<exists>d<10. a = digit_char d \<and> atoi_digits (n * 10 + int d) s = Some m" by blast
next
  assume "\<exists>d<10. a = digit_char d \<and> atoi_digits (n * 10 + int d) s = Some m"
  then obtain d where d: "d < 10" "a = digit_char d" "atoi_digits (n * 10 + int d) s = Some m" by blast
  have h: "byte_sub a (CHR ''0'') = d"
    using d(1) byte_sub_digit_char[of d] d(2) by blast
  have nd: "\<not> d > 9" using d(1) by arith
  have "atoi_digits n (a # s) = (if d > 9 then None else atoi_digits (n * 10 + int d) s)"
    by (simp only: atoi_digits.simps h Let_def)
  then show "atoi_digits n (a # s) = Some m" using nd d(3) by (simp only: if_False)
qed

lemma decimal_small: "d < 10 \<Longrightarrow> decimal d = [digit_char d]"
  by (simp add: decimal_def)

lemma digit_char_inj: "d < 10 \<Longrightarrow> e < 10 \<Longrightarrow> digit_char d = digit_char e \<Longrightarrow> d = e"
proof -
  assume a: "d < 10" "e < 10" "digit_char d = digit_char e"
  have "(of_char (digit_char d) :: nat) = of_char (digit_char e)"
    using a(3) by (rule arg_cong)
  then have "48 + d = 48 + e"
    using a(1,2) by (simp only: of_digit_char)
  then show "d = e" by arith
qed

lemma digit_char_not_sign:
  assumes "d < 10"
  shows "digit_char d \<noteq> CHR ''+''" and "digit_char d \<noteq> CHR ''-''"
proof -
  have v: "(of_char (digit_char d) :: nat) = 48 + d" using assms by (rule of_digit_char)
  have p: "(of_char (CHR ''+'') :: nat) = 43" by simp
  have m: "(of_char (CHR ''-'') :: nat) = 45" by simp
  show "digit_char d \<noteq> CHR ''+''"
  proof
    assume "digit_char d = CHR ''+''"
    then have "(48 + d :: nat) = 43" using v p by (simp only:)
    then show False by arith
  qed
  show "digit_char d \<noteq> CHR ''-''"
  proof
    assume "digit_char d = CHR ''-''"
    then have "(48 + d :: nat) = 45" using v m by (simp only:)
    then show False by arith
  qed
qed

lemma atoi_digits_one:
  "atoi_digits 0 [a] = Some m \<longleftrightarrow> (\<exists>d<10. a = digit_char d \<and> m = int d)"
proof -
  have "atoi_digits 0 [a] = Some m \<longleftrightarrow>
        (\<exists>d<10. a = digit_char d \<and> atoi_digits (0 * 10 + int d) [] = Some m)"
    by (rule atoi_digits_step)
  also have "\<dots> \<longleftrightarrow> (\<exists>d<10. a = digit_char d \<and> m = int d)"
    by (simp only: atoi_digits.simps) auto
  finally show ?thesis .
qed

lemma atoi_digits_two:
  "atoi_digits 0 [a, b] = Some m \<longleftrightarrow>
     (\<exists>d<10. \<exists>e<10. a = digit_char d \<and> b = digit_char e \<and> m = int d * 10 + int e)"
proof -
  have "atoi_digits 0 [a, b] = Some m \<longleftrightarrow>
        (\<exists>d<10. a = digit_char d \<and> atoi_digits (0 * 10 + int d) [b] = Some m)"
    by (rule atoi_digits_step)
  also have "\<dots> \<longleftrightarrow>
        (\<exists>d<10. a = digit_char d \<and>
           (\<exists>e<10. b = digit_char e \<and> atoi_digits ((0 * 10 + int d) * 10 + int e) [] = Some m))"
    by (simp only: atoi_digits_step[where s = "[]"])
  also have "\<dots> \<longleftrightarrow>
        (\<exists>d<10. \<exists>e<10. a = digit_char d \<and> b = digit_char e \<and> m = int d * 10 + int e)"
    by (simp only: atoi_digits.simps) auto
  finally show ?thesis .
qed

lemma Atoi_unsigned:
  "a \<noteq> CHR ''-'' \<Longrightarrow> a \<noteq> CHR ''+'' \<Longrightarrow> Atoi (a # s) = atoi_digits 0 (a # s)"
  by (simp add: Atoi_def)

lemma Atoi_signed:
  "a = CHR ''-'' \<or> a = CHR ''+'' \<Longrightarrow>
   Atoi (a # s) = (if s = [] then None
                   else map_option (\<lambda>n. if a = CHR ''-'' then - n else n) (atoi_digits 0 s))"
  by (cases s) (auto simp: Atoi_def split: option.splits)

lemma Atoi_one:
  "Atoi [a] = Some m \<longleftrightarrow> (\<exists>d<10. a = digit_char d \<and> m = int d)"
proof (cases "a = CHR ''-'' \<or> a = CHR ''+''")
  case True
  then have "Atoi [a] = None" by (simp only: Atoi_signed) simp
  moreover have "\<not> (\<exists>d<10. a = digit_char d \<and> m = int d)"
    using True digit_char_not_sign by blast
  ultimately show ?thesis by simp
next
  case False
  then have "Atoi [a] = atoi_digits 0 [a]" using Atoi_unsigned by blast
  then show ?thesis by (simp only: atoi_digits_one)
qed

lemma Atoi_two:
  "Atoi [a, b] = Some m \<longleftrightarrow>
     (\<exists>d<10. \<exists>e<10. a = digit_char d \<and> b = digit_char e \<and> m = int d * 10 + int e)
     \<or> (a = CHR ''+'' \<and> (\<exists>e<10. b = digit_char e \<and> m = int e))
     \<or> (a = CHR ''-'' \<and> (\<exists>e<10. b = digit_char e \<and> m = - int e))"
proof (cases "a = CHR ''-'' \<or> a = CHR ''+''")
  case True
  have nd: "\<not> (\<exists>d<10. \<exists>e<10. a = digit_char d \<and> b = digit_char e \<and> m = int d * 10 + int e)"
    using True digit_char_not_sign by blast
  have A: "Atoi [a, b] = map_option (\<lambda>n. if a = CHR ''-'' then - n else n) (atoi_digits 0 [b])"
    using True by (simp only: Atoi_signed) simp
  show ?thesis
  proof (cases "a = CHR ''-''")
    case True
    then have "Atoi [a, b] = Some m \<longleftrightarrow> (\<exists>n. atoi_digits 0 [b] = Some n \<and> m = - n)"
      unfolding A by auto
    also have "\<dots> \<longleftrightarrow> (\<exists>e<10. b = digit_char e \<and> m = - int e)"
      unfolding atoi_digits_one by blast
    finally have F: "Atoi [a, b] = Some m \<longleftrightarrow> (\<exists>e<10. b = digit_char e \<and> m = - int e)" .
    have pm: "CHR ''+'' \<noteq> CHR ''-''" by simp
    show ?thesis using nd True F pm by blast
  next
    case False
    with \<open>a = CHR ''-'' \<or> a = CHR ''+''\<close> have p: "a = CHR ''+''" by blast
    from False have "Atoi [a, b] = Some m \<longleftrightarrow> (\<exists>n. atoi_digits 0 [b] = Some n \<and> m = n)"
      unfolding A by auto
    also have "\<dots> \<longleftrightarrow> (\<exists>e<10. b = digit_char e \<and> m = int e)"
      unfolding atoi_digits_one by blast
    finally have F: "Atoi [a, b] = Some m \<longleftrightarrow> (\<exists>e<10. b = digit_char e \<and> m = int e)" .
    show ?thesis using nd p False F by blast
  qed
next
  case False
  then have "Atoi [a, b] = atoi_digits 0 [a, b]" using Atoi_unsigned by blast
  then show ?thesis using False by (simp only: atoi_digits_two) blast
qed

lemma digit_char_zero: "digit_char 0 = CHR ''0''"
  by code_simp

lemma number_part_accepted:
  assumes "p \<in> set (number_spellings n)" and "1 \<le> n" and "n \<le> 12"
  shows "Atoi p = Some n \<and> (length p = 1 \<or> length p = 2)"
proof (cases "n < 10")
  case True
  define d where "d = nat n"
  have d: "d < 10" "n = int d" using True assms(2) by (simp_all add: d_def)
  have dec: "decimal d = [digit_char d]" using d(1) by (rule decimal_small)
  have p: "p = [digit_char d] \<or> p = [CHR ''0'', digit_char d] \<or> p = [CHR ''+'', digit_char d]"
    using assms(1) True dec by (auto simp: number_spellings_def d_def)
  have a1: "Atoi [digit_char d] = Some n"
    unfolding Atoi_one using d by blast
  have a2: "Atoi [CHR ''0'', digit_char d] = Some n"
    unfolding Atoi_two using d digit_char_zero by (intro disjI1 exI[of _ 0] exI[of _ d]) simp
  have a3: "Atoi [CHR ''+'', digit_char d] = Some n"
    unfolding Atoi_two using d by blast
  show ?thesis using p a1 a2 a3 by auto
next
  case False
  then have n: "n = 10 \<or> n = 11 \<or> n = 12" using assms(3) by arith
  define e where "e = nat n - 10"
  have e: "e < 10" "n = int 1 * 10 + int e" "nat n div 10 = 1" "nat n mod 10 = e"
    using n by (auto simp: e_def)
  have p: "p = [digit_char 1, digit_char e]"
    using assms(1) False e(3,4) by (simp add: number_spellings_def decimal_def)
  have "Atoi [digit_char 1, digit_char e] = Some n"
    unfolding Atoi_two using e(1,2) by (intro disjI1 exI[of _ 1] exI[of _ e]) simp
  then show ?thesis using p by simp
qed

lemma number_part_spelled:
  assumes "Atoi p = Some n" and "length p = 1 \<or> length p = 2" and "1 \<le> n" and "n \<le> 12"
  shows "p \<in> set (number_spellings n)"
  using assms(2)
proof
  assume "length p = 1"
  then obtain a where p: "p = [a]" by (cases p) auto
  from assms(1) obtain d where d: "d < 10" "a = digit_char d" "n = int d"
    unfolding p Atoi_one by blast
  have "decimal (nat n) = [digit_char d]" using d(1,3) decimal_small by simp
  then show ?thesis using d p by (simp add: number_spellings_def)
next
  assume "length p = 2"
  then obtain a b where p: "p = [a, b]"
    by (cases p; cases "tl p") auto
  from assms(1) consider
      (digits) d e where "d < 10" "e < 10" "a = digit_char d" "b = digit_char e" "n = int d * 10 + int e"
    | (plus) e where "a = CHR ''+''" "e < 10" "b = digit_char e" "n = int e"
    | (minus) e where "a = CHR ''-''" "e < 10" "b = digit_char e" "n = - int e"
    unfolding p Atoi_two by blast
  then show ?thesis
  proof cases
    case digits
    have "d = 0 \<or> d = 1" using digits(5) assms(4) by arith
    then show ?thesis
    proof
      assume z: "d = 0"
      then have n: "n = int e" using digits(5) by simp
      have "decimal (nat n) = [digit_char e]" using n digits(2) decimal_small by simp
      then show ?thesis
        using p digits(3,4) z n digits(2) digit_char_zero by (simp add: number_spellings_def)
    next
      assume o: "d = 1"
      then have n: "nat n = 10 + e" using digits(5) by simp
      have "nat n div 10 = 1" "nat n mod 10 = e" using n digits(2) by simp_all
      then have "decimal (nat n) = [digit_char 1, digit_char e]"
        using n by (simp add: decimal_def)
      moreover have "\<not> n < 10" using n by arith
      ultimately show ?thesis
        using p digits(3,4) o by (simp add: number_spellings_def)
    qed
  next
    case plus
    have "decimal (nat n) = [digit_char e]" using plus(2,4) decimal_small by simp
    then show ?thesis using p plus by (simp add: number_spellings_def)
  next
    case minus
    then have "n \<le> 0" by simp
    then show ?thesis using assms(3) by arith
  qed
qed

lemma ParseKey_Inr_iff:
  "ParseKey input = Inr k \<longleftrightarrow>
     (let c = TrimSpace (ToUpper input); p = take (length c - 1) c; m = drop (length c - 1) c
      in (length c = 2 \<or> length c = 3) \<and> (m = ModeA \<or> m = ModeB) \<and>
         (\<exists>n. Atoi p = Some n \<and> 1 \<le> n \<and> n \<le> 12 \<and> Number k = n \<and> Mode k = m))"
  by (cases k) (auto simp: ParseKey_def Let_def split: option.splits)

lemma mode_length: "m = ModeA \<or> m = ModeB \<Longrightarrow> length m = 1"
  by (auto simp: ModeA_def ModeB_def)

text \<open>
  Claim C9, as amended. For every ASCII input string, \<open>ParseKey\<close> succeeds with a key
  \<open>k\<close> if and only if the number of \<open>k\<close> is from 1 to 12, its mode is \<open>A\<close> or \<open>B\<close>, and
  the input, upper-cased and trimmed, is one of the accepted spellings of that number
  immediately followed by the mode: the plain decimal numeral or, for a one-digit number,
  the numeral preceded by one zero or by a plus sign. Every other string is rejected, and
  the returned key carries exactly that number and mode.
\<close>

theorem ParseKey_accepts:
  assumes "is_ascii input"
  shows "ParseKey input = Inr k \<longleftrightarrow>
     (1 \<le> Number k \<and> Number k \<le> 12 \<and> (Mode k = ModeA \<or> Mode k = ModeB) \<and>
      TrimSpace (ToUpper input) \<in> set (map (\<lambda>p. p @ Mode k) (number_spellings (Number k))))"
proof
  define c where "c = TrimSpace (ToUpper input)"
  define p where "p = take (length c - 1) c"
  define m where "m = drop (length c - 1) c"
  assume "ParseKey input = Inr k"
  then have L: "length c = 2 \<or> length c = 3" "m = ModeA \<or> m = ModeB"
      "Atoi p = Some (Number k)" "1 \<le> Number k" "Number k \<le> 12" "Mode k = m"
    unfolding ParseKey_Inr_iff Let_def c_def p_def m_def by auto
  have "length p = 1 \<or> length p = 2" using L(1) by (auto simp: p_def)
  then have "p \<in> set (number_spellings (Number k))"
    using L(3,4,5) number_part_spelled by blast
  moreover have "c = p @ Mode k" using L(6) by (simp add: p_def m_def)
  ultimately show "1 \<le> Number k \<and> Number k \<le> 12 \<and> (Mode k = ModeA \<or> Mode k = ModeB) \<and>
      TrimSpace (ToUpper input) \<in> set (map (\<lambda>p. p @ Mode k) (number_spellings (Number k)))"
    using L(2,4,5,6) unfolding c_def[symmetric] by auto
next
  define c where "c = TrimSpace (ToUpper input)"
  assume R: "1 \<le> Number k \<and> Number k \<le> 12 \<and> (Mode k = ModeA \<or> Mode k = ModeB) \<and>
      TrimSpace (ToUpper input) \<in> set (map (\<lambda>p. p @ Mode k) (number_spellings (Number k)))"
  then obtain p where p: "p \<in> set (number_spellings (Number k))" "c = p @ Mode k"
    unfolding c_def by auto
  have ml: "length (Mode k) = 1" using R mode_length by blast
  have A: "Atoi p = Some (Number k)" "length p = 1 \<or> length p = 2"
    using number_part_accepted[OF p(1)] R by auto
  have t: "take (length c - 1) c = p" "drop (length c - 1) c = Mode k"
    using p(2) ml by simp_all
  have "length c = 2 \<or> length c = 3" using A(2) p(2) ml by auto
  then show "ParseKey input = Inr k"
    unfolding ParseKey_Inr_iff Let_def c_def[symmetric] t using A(1) R by auto
qed

text \<open>The theorem at the input \<open>" 12b "\<close> of the package's own test.\<close>

theorem ParseKey_accepts_witness:
  "ParseKey '' 12b '' = Inr \<lparr>Number = 12, Mode = ''B''\<rparr>"
proof -
  have a: "is_ascii '' 12b ''" by code_simp
  have b: "TrimSpace (ToUpper '' 12b '') = ''12B''" by code_simp
  have c: "number_spellings 12 = [''12'']" by code_simp
  show ?thesis
    using ParseKey_accepts[OF a, of "\<lparr>Number = 12, Mode = ''B''\<rparr>"]
    by (simp add: b c ModeA_def ModeB_def)
qed

text \<open>
  The claim as stated fails: \<open>"+1A"\<close> is accepted although it is not a number from 1 to
  12 immediately followed by \<open>A\<close> or \<open>B\<close>.
\<close>

theorem ParseKey_signed_counterexample:
  "ParseKey ''+1A'' = Inr \<lparr>Number = 1, Mode = ''A''\<rparr> \<and>
   TrimSpace (ToUpper ''+1A'') \<notin> set spec_key_labels"
  by code_simp

section \<open>The scoring loop of step selection\<close>

lemma category_of_range: "0 \<le> category_of state t \<and> category_of state t < 5"
  by (simp add: category_of_def categorizeTransition_def)

lemma buckets_ok_empty: "buckets_ok state pool 0 emptyBuckets"
  by (simp add: buckets_ok_def emptyBuckets_def)

lemma buckets_ok_keep:
  assumes ok: "buckets_ok state pool n bs" and n: "n < length pool"
    and s: "is_set (bs ! nat (category_of state (pool ! n)))"
  shows "buckets_ok state pool (Suc n) bs"
  using ok s unfolding buckets_ok_def
  by (auto simp: less_Suc_eq)

lemma buckets_ok_put:
  assumes ok: "buckets_ok state pool n bs" and n: "n < length pool"
    and c: "c = nat (category_of state (pool ! n))"
    and b: "idx b = n" "is_set b"
  shows "buckets_ok state pool (Suc n) (bs[c := b])"
proof -
  have c5: "c < 5" using category_of_range[of state "pool ! n"] c by auto
  have ci: "int c = category_of state (pool ! n)"
    using category_of_range[of state "pool ! n"] c by auto
  have len: "length bs = 5" using ok by (simp add: buckets_ok_def)
  show ?thesis
    unfolding buckets_ok_def
  proof (intro conjI allI impI)
    show "length (bs[c := b]) = 5" using len by simp
  next
    fix d assume d: "d < 5" and sd: "is_set (bs[c := b] ! d)"
    show "idx (bs[c := b] ! d) < Suc n"
    proof (cases "d = c")
      case True then show ?thesis using b len c5 by simp
    next
      case False
      then show ?thesis using ok d sd unfolding buckets_ok_def by (auto simp: less_Suc_eq)
    qed
    show "category_of state (pool ! idx (bs[c := b] ! d)) = int d"
    proof (cases "d = c")
      case True then show ?thesis using b len c5 ci by simp
    next
      case False
      then show ?thesis using ok d sd unfolding buckets_ok_def by auto
    qed
  next
    fix j assume j: "j < Suc n"
    show "is_set (bs[c := b] ! nat (category_of state (pool ! j)))"
    proof (cases "nat (category_of state (pool ! j)) = c")
      case True then show ?thesis using b len c5 by simp
    next
      case False
      then have "j \<noteq> n" using c by auto
      then have "j < n" using j by arith
      then show ?thesis using ok False unfolding buckets_ok_def by auto
    qed
  qed
qed

lemma nextLoop_invariant:
  assumes "buckets_ok state pool (length pre) bs" and "pool = pre @ rest"
  shows "buckets_ok state pool (length pool) (fst (nextLoop p state (length pre) rest bs g))"
  using assms
proof (induction rest arbitrary: pre bs g)
  case Nil
  then show ?case by simp
next
  case (Cons candidate rest)
  let ?n = "length pre"
  have pool: "pool = (pre @ [candidate]) @ rest" using Cons.prems(2) by simp
  have n: "?n < length pool" using Cons.prems(2) by simp
  have at: "pool ! ?n = candidate" using Cons.prems(2) by simp
  define c where "c = categorizeTransition state (computeTransition state candidate)"
  have cc: "c = category_of state (pool ! ?n)" by (simp add: c_def at category_of_def)
  have rng: "0 \<le> c" "c < 5" using category_of_range[of state "pool ! ?n"] cc by auto
  have len: "length bs = 5" using Cons.prems(1) by (simp add: buckets_ok_def)
  have nc: "nat c = nat (category_of state (pool ! ?n))" using cc by simp
  have step: "\<And>bs' g'. buckets_ok state pool (Suc ?n) bs' \<Longrightarrow>
      buckets_ok state pool (length pool) (fst (nextLoop p state (Suc ?n) rest bs' g'))"
    using Cons.IH[of "pre @ [candidate]"] pool by simp
  have keep: "is_set (bs ! nat c) \<Longrightarrow> buckets_ok state pool (Suc ?n) bs"
    using buckets_ok_keep[OF Cons.prems(1) n] nc by simp
  have put: "\<And>b. idx b = ?n \<Longrightarrow> is_set b \<Longrightarrow> buckets_ok state pool (Suc ?n) (bs[nat c := b])"
    using buckets_ok_put[OF Cons.prems(1) n nc] by simp
  show ?case
    using rng len
    by (auto simp: Let_def c_def[symmetric] split: prod.splits intro!: step keep put)
qed

lemma nextLoop_buckets_ok:
  "buckets_ok state (remaining p) (length (remaining p))
     (fst (nextLoop p state 0 (remaining p) emptyBuckets g))"
  using nextLoop_invariant[of state "remaining p" "[]" emptyBuckets "remaining p" p g]
    buckets_ok_empty[of state "remaining p"] by simp

section \<open>The fallback of step selection\<close>

lemma categoryOrder_shape:
  "\<exists>xs. categoryOrder state = xs @ [4] \<and> set xs = {0, 1, 2, 3}"
proof -
  have "categoryOrder state = [0, 1, 2, 3] @ [4] \<or> categoryOrder state = [1, 0, 2, 3] @ [4]
      \<or> categoryOrder state = [3, 0, 1, 2] @ [4] \<or> categoryOrder state = [3, 1, 0, 2] @ [4]"
    by (simp add: categoryOrder_def Let_def)
  then show ?thesis by auto
qed

lemma firstSetBucket_found:
  assumes "c0 \<in> set xs" and "is_set (bs ! nat c0)"
  shows "\<exists>c \<in> set xs. is_set (bs ! nat c) \<and> firstSetBucket bs (xs @ ys) = Some (idx (bs ! nat c))"
  using assms by (induction xs) auto

lemma chooseNextIndex_fst:
  "fst (chooseNextIndex p state) =
     (case firstSetBucket (fst (nextLoop p state 0 (remaining p) emptyBuckets (rng p)))
             (categoryOrder state) of Some i \<Rightarrow> i | None \<Rightarrow> 0)"
  by (simp add: chooseNextIndex_def Let_def split: prod.splits)

lemma chooseNextIndex_remaining:
  "remaining (snd (chooseNextIndex p state)) = remaining p"
  by (simp add: chooseNextIndex_def Let_def split: prod.splits)

text \<open>
  Claim C10. Whenever the remaining pool is non-empty and a previous track exists, at least
  one of the five category buckets is set after scoring all candidates, so the final loop
  over the category order returns a bucket and the fallback \<open>return 0\<close> is not reached.
\<close>

theorem fallback_unreachable:
  assumes "remaining p \<noteq> []" and "prevSet state"
  shows "(\<exists>c<5. is_set (fst (nextLoop p state 0 (remaining p) emptyBuckets (rng p)) ! c))
       \<and> firstSetBucket (fst (nextLoop p state 0 (remaining p) emptyBuckets (rng p)))
            (categoryOrder state) \<noteq> None"
proof -
  define bs where "bs = fst (nextLoop p state 0 (remaining p) emptyBuckets (rng p))"
  define c0 where "c0 = category_of state (remaining p ! 0)"
  have ok: "buckets_ok state (remaining p) (length (remaining p)) bs"
    unfolding bs_def by (rule nextLoop_buckets_ok)
  have r: "0 \<le> c0" "c0 < 5" using category_of_range[of state "remaining p ! 0"] by (auto simp: c0_def)
  have s: "is_set (bs ! nat c0)"
    using ok assms(1) unfolding buckets_ok_def c0_def by auto
  have first: "\<exists>c<5. is_set (bs ! c)"
    using s r by (intro exI[of _ "nat c0"]) auto
  obtain xs where xs: "categoryOrder state = xs @ [4]" "set xs = {0, 1, 2, 3}"
    using categoryOrder_shape by blast
  have "c0 = 0 \<or> c0 = 1 \<or> c0 = 2 \<or> c0 = 3 \<or> c0 = 4" using r by arith
  then have "c0 \<in> set (xs @ [4])" unfolding set_append xs(2) by auto
  then have "\<exists>c \<in> set (xs @ [4]). is_set (bs ! nat c)
               \<and> firstSetBucket bs ((xs @ [4]) @ []) = Some (idx (bs ! nat c))"
    using s by (rule firstSetBucket_found)
  then have "firstSetBucket bs (categoryOrder state) \<noteq> None" using xs(1) by auto
  then show ?thesis using first unfolding bs_def by simp
qed

text \<open>The theorem at the three-track example, after the track in key 1A.\<close>

theorem fallback_unreachable_witness:
  "firstSetBucket (fst (nextLoop example_planner example_state 0 (remaining example_planner)
                          emptyBuckets (rng example_planner)))
     (categoryOrder example_state) \<noteq> None"
proof -
  have a: "remaining example_planner \<noteq> []"
    by (simp add: example_planner_def newMixPlanner_def Let_def example_tracks_def split: prod.splits)
  have b: "prevSet example_state"
    by (simp add: example_state_def initialState_def)
  show ?thesis using fallback_unreachable[OF a b] by simp
qed


section \<open>Shallow candidates are preferred\<close>

lemma low_category_diff:
  assumes "prevSet state" and "category_of state t \<in> {0, 1, 2, 3}"
  shows "0 \<le> diff (computeTransition state t) \<and> diff (computeTransition state t) \<le> 2"
  using assms by (auto simp: category_of_def categorizeTransition_def split: if_splits)

lemma shallow_category:
  assumes "prevSet state" and "shallow state t"
  shows "category_of state t \<in> {0, 1, 2, 3}"
  using assms by (auto simp: shallow_def category_of_def categorizeTransition_def Let_def)

text \<open>
  Claim C3. At every step of the greedy loop at which the remaining pool holds a shallow
  candidate (key-number distance at most 2 without mode change, or distance 0), the track
  chosen at that step has key-number distance at most 3; it is itself a shallow candidate.
\<close>

theorem shallow_option_taken:
  assumes "prevSet state" and "\<exists>t \<in> set (remaining p). shallow state t"
  shows "fst (chooseNextIndex p state) < length (remaining p)
       \<and> diff (computeTransition state (remaining p ! fst (chooseNextIndex p state))) \<le> 3
       \<and> shallow state (remaining p ! fst (chooseNextIndex p state))"
proof -
  define bs where "bs = fst (nextLoop p state 0 (remaining p) emptyBuckets (rng p))"
  have ok: "buckets_ok state (remaining p) (length (remaining p)) bs"
    unfolding bs_def by (rule nextLoop_buckets_ok)
  from assms(2) obtain j where j: "j < length (remaining p)" "shallow state (remaining p ! j)"
    by (auto simp: in_set_conv_nth)
  define c0 where "c0 = category_of state (remaining p ! j)"
  have c0: "c0 \<in> {0, 1, 2, 3}" unfolding c0_def using assms(1) j(2) by (rule shallow_category)
  have s: "is_set (bs ! nat c0)" using ok j(1) unfolding buckets_ok_def c0_def by auto
  obtain xs where xs: "categoryOrder state = xs @ [4]" "set xs = {0, 1, 2, 3}"
    using categoryOrder_shape by blast
  have "c0 \<in> set xs" using c0 xs(2) by simp
  then obtain c where c: "c \<in> set xs" "is_set (bs ! nat c)"
      "firstSetBucket bs (xs @ [4]) = Some (idx (bs ! nat c))"
    using s firstSetBucket_found by blast
  define i where "i = idx (bs ! nat c)"
  have fi: "fst (chooseNextIndex p state) = i"
    unfolding chooseNextIndex_fst bs_def[symmetric] xs(1) c(3) i_def by simp
  have c3: "c \<in> {0, 1, 2, 3}" using c(1) xs(2) by simp
  then have n5: "nat c < 5" "int (nat c) = c" by auto
  have b: "i < length (remaining p)" "category_of state (remaining p ! i) = c"
    using ok c(2) n5 unfolding buckets_ok_def i_def by auto
  have d: "0 \<le> diff (computeTransition state (remaining p ! i))"
          "diff (computeTransition state (remaining p ! i)) \<le> 2"
    using low_category_diff[OF assms(1), of "remaining p ! i"] b(2) c3 by auto
  have sh: "shallow state (remaining p ! i)"
    using assms(1) b(2) c3
    by (auto simp: shallow_def category_of_def categorizeTransition_def Let_def split: if_splits)
  show ?thesis unfolding fi using b(1) d sh by simp
qed

text \<open>The theorem at the three-track example, after the track in key 1A.\<close>

theorem shallow_option_taken_witness:
  "diff (computeTransition example_state
          (remaining example_planner ! fst (chooseNextIndex example_planner example_state))) \<le> 3"
proof -
  have a: "prevSet example_state"
    by (simp add: example_state_def initialState_def)
  have b: "\<exists>t \<in> set (remaining example_planner). shallow example_state t"
    by code_simp
  show ?thesis using shallow_option_taken[OF a b] by simp
qed


section \<open>Taking a track\<close>

lemma swap_remove_mset:
  assumes "i < length xs"
  shows "add_mset (xs ! i) (mset (take (length xs - 1) (xs[i := xs ! (length xs - 1)]))) = mset xs"
proof -
  from assms have ne: "xs \<noteq> []" by auto
  then obtain ys l where xs: "xs = ys @ [l]" by (metis rev_exhaust)
  show ?thesis
  proof (cases "i = length ys")
    case True
    then show ?thesis by (simp add: xs)
  next
    case False
    then have i: "i < length ys" using assms xs by simp
    have "take (length xs - 1) (xs[i := xs ! (length xs - 1)]) = ys[i := l]"
      using i by (simp add: xs list_update_append)
    moreover have "xs ! i = ys ! i" using i by (simp add: xs nth_append)
    moreover have "add_mset (ys ! i) (mset (ys[i := l])) = add_mset l (mset ys)"
      using i by (simp add: mset_update)
    ultimately show ?thesis by (simp add: xs)
  qed
qed

lemma take_track_Some:
  assumes "i < length (remaining p)"
  shows "\<exists>p'. take_track p i = Some (remaining p ! i, p')
           \<and> add_mset (remaining p ! i) (mset (remaining p')) = mset (remaining p)
           \<and> Suc (length (remaining p')) = length (remaining p)"
proof -
  define p' where "p' = p\<lparr>countsByKey := decrement (countsByKey p) (Key (remaining p ! i)),
      countsByNumber := decrement (countsByNumber p) (Number (Key (remaining p ! i))),
      remaining := take (length (remaining p) - 1)
                     ((remaining p)[i := remaining p ! (length (remaining p) - 1)])\<rparr>"
  have "take_track p i = Some (remaining p ! i, p')"
    using assms by (simp add: take_track_def Let_def p'_def)
  moreover have "add_mset (remaining p ! i) (mset (remaining p')) = mset (remaining p)"
    using swap_remove_mset[OF assms] by (simp add: p'_def)
  moreover have "Suc (length (remaining p')) = length (remaining p)"
    using assms by (simp add: p'_def)
  ultimately show ?thesis by blast
qed

lemma first_fired_None:
  "(\<And>j. d j = None) \<Longrightarrow> first_fired d k n = None"
  by (induction n arbitrary: k) simp_all

section \<open>The chosen indices are in range\<close>

lemma chooseStartIndex_in_range:
  assumes "remaining p \<noteq> []"
  shows "fst (chooseStartIndex p) < length (remaining p)"
proof -
  define cands where "cands = snd (startLoop p 0 (remaining p) None [])"
  define n where "n = length (remaining p)"
  have n: "0 < n" using assms by (simp add: n_def)
  have "start_inv (\<lambda>j. startScore p (remaining p ! j)) n
          (fst (startLoop p 0 (remaining p) None [])) cands"
    unfolding n_def cands_def by (rule startLoop_start_inv)
  then obtain a where a: "a < n"
      "set cands = {j. a \<le> j \<and> j < n
          \<and> startScore p (remaining p ! j) \<le> startScore p (remaining p ! a) + startSelectionTolerance}"
    using n unfolding start_inv_def by blast
  show ?thesis
  proof (cases "cands = []")
    case True
    then show ?thesis using n unfolding chooseStartIndex_fst cands_def[symmetric] Let_def n_def by simp
  next
    case False
    then have "rng p 0 mod length cands < length cands" by simp
    then have "cands ! (rng p 0 mod length cands) \<in> set cands" by (rule nth_mem)
    then have "cands ! (rng p 0 mod length cands) < n" unfolding a(2) by simp
    then show ?thesis
      using False unfolding chooseStartIndex_fst cands_def[symmetric] Let_def n_def by simp
  qed
qed

lemma firstSetBucket_Some:
  "firstSetBucket bs order = Some i \<Longrightarrow> \<exists>c \<in> set order. is_set (bs ! nat c) \<and> i = idx (bs ! nat c)"
  by (induction order) (auto split: if_splits)

lemma chooseNextIndex_in_range:
  assumes "remaining p \<noteq> []"
  shows "fst (chooseNextIndex p state) < length (remaining p)"
proof -
  define bs where "bs = fst (nextLoop p state 0 (remaining p) emptyBuckets (rng p))"
  have ok: "buckets_ok state (remaining p) (length (remaining p)) bs"
    unfolding bs_def by (rule nextLoop_buckets_ok)
  obtain xs where xs: "categoryOrder state = xs @ [4]" "set xs = {0, 1, 2, 3}"
    using categoryOrder_shape by blast
  show ?thesis
  proof (cases "firstSetBucket bs (categoryOrder state)")
    case None
    then show ?thesis using assms unfolding chooseNextIndex_fst bs_def[symmetric] by simp
  next
    case (Some i)
    then obtain c where c: "c \<in> set (categoryOrder state)" "is_set (bs ! nat c)" "i = idx (bs ! nat c)"
      using firstSetBucket_Some by blast
    have "c = 0 \<or> c = 1 \<or> c = 2 \<or> c = 3 \<or> c = 4" using c(1) unfolding xs(1) set_append xs(2) by auto
    then have "nat c < 5" by auto
    then have "i < length (remaining p)" using ok c(2,3) unfolding buckets_ok_def by blast
    then show ?thesis using Some unfolding chooseNextIndex_fst bs_def[symmetric] by simp
  qed
qed

lemma steps_left_zero:
  "\<not> (remainingCount planner > 0 \<and> int (length ordered) < target) \<Longrightarrow>
   steps_left target ordered planner = 0"
  by (auto simp: steps_left_def remainingCount_def)

lemma steps_left_Suc:
  assumes "remainingCount planner > 0" "int (length ordered) < target"
    and "Suc (length (remaining planner')) = length (remaining planner)"
  shows "steps_left target ordered planner = Suc (steps_left target (ordered @ [next]) planner')"
  using assms by (auto simp: steps_left_def remainingCount_def min_def)

end
